theory Spec2Isabelle
  imports Main "HOL-Library.Word"
begin

unbundle bit_operations_syntax

section \<open>The cell: \<open>data_column::data_type\<close>\<close>

text \<open>
  \<open>data_type\<close> is a union of \<open>int64_t i\<close>, \<open>double f\<close>, \<open>const char* s.ptr\<close> and
  \<open>char s.sso[8]\<close> over the same eight bytes.  A cell is modelled by the 64-bit word
  that the members \<open>i\<close> and \<open>s.ptr\<close> read (the null pointer is the word 0, an
  \<open>int64_t\<close> is the word read by \<open>sint\<close>); the member \<open>f\<close> is the double with
  that IEEE-754 bit pattern.  The bytes \<open>s.sso[k]\<close> are the bytes of the word in memory
  order, which depends on \<open>std::endian::native\<close>: the source selects one of two branches
  with \<open>if constexpr\<close>, the model takes the endianness as a parameter.
\<close>

datatype endian = Little | Big

datatype type = STRING | INT_type | FLOAT

type_synonym data_type = "64 word"

text \<open>
  A \<open>std::string_view\<close> is modelled by the bytes that its holder reads through it.  A
  view of storage whose lifetime has ended has no such bytes: reading it is undefined
  behaviour, the error \<open>Dangling_view\<close> below.
\<close>

type_synonym string_view = "8 word list"

datatype variant_type = VNull | VInt "64 word" | VFloat "64 word" | VString string_view

text \<open>
  Process memory, byte addressed, as far as \<open>get_string_ptr\<close> reads it.  Whether an
  address may be read is the caller's contract (``Care must be taken'').
\<close>

type_synonym memory = "64 word \<Rightarrow> 8 word"

definition zero_memory :: memory where
  "zero_memory = (\<lambda>a. 0)"

text \<open>
  \<open>Out_of_range\<close> is the exception \<open>std::out_of_range\<close> and \<open>Assertion_failed\<close> the
  abort of a failed \<open>assert\<close>.  The other values stand for undefined behaviour of the
  C++ program: a view that leaves the eight bytes of its cell, a shift by a negative
  amount, a dereference of the null pointer, an access past the end of the allocated
  block, a view returned to the caller after the object it points into is gone (with the
  bytes that object held), and a \<open>deallocate\<close> of something that the memory resource did
  not allocate with that size.
\<close>

datatype error =
  Out_of_range
| Cell_overrun
| Negative_shift
| Null_dereference
| Buffer_overrun
| Dangling_view "8 word list"
| Assertion_failed
| Resource_precondition

definition sso_width :: nat where
  "sso_width = 3"

definition sso_mask :: "8 word" where
  "sso_mask = 7"

definition int64_min :: "64 word" where
  "int64_min = 0x8000000000000000"

text \<open>
  The bit pattern of \<open>std::numeric_limits<double>::lowest()\<close>, that is \<open>-DBL_MAX\<close>.
  It is finite and not zero, so \<open>value.f == lowest()\<close> holds exactly when the two bit
  patterns are equal.
\<close>

definition double_lowest :: "64 word" where
  "double_lowest = 0xFFEFFFFFFFFFFFFF"

text \<open>Bit position of \<open>s.sso[k]\<close> inside the word.\<close>

definition sso_shift :: "endian \<Rightarrow> nat \<Rightarrow> nat" where
  "sso_shift e k = (case e of Little \<Rightarrow> 8 * k | Big \<Rightarrow> 8 * (7 - k))"

text \<open>Reading \<open>value.s.sso[k]\<close>.\<close>

definition sso :: "endian \<Rightarrow> data_type \<Rightarrow> nat \<Rightarrow> 8 word" where
  "sso e v k = ucast (drop_bit (sso_shift e k) v)"

text \<open>The assignment \<open>value.s.sso[k] = b\<close>.\<close>

definition sso_update :: "endian \<Rightarrow> nat \<Rightarrow> 8 word \<Rightarrow> data_type \<Rightarrow> data_type" where
  "sso_update e k b v =
     (v AND NOT (push_bit (sso_shift e k) 255)) OR push_bit (sso_shift e k) (ucast b)"

text \<open>\<open>value.copy(&sso.s.sso[k], value.size())\<close>: the bytes go to \<open>sso[k], sso[k+1], ...\<close>\<close>

fun copy_to_sso :: "endian \<Rightarrow> nat \<Rightarrow> 8 word list \<Rightarrow> data_type \<Rightarrow> data_type" where
  "copy_to_sso e k [] v = v"
| "copy_to_sso e k (b # bs) v = copy_to_sso e (Suc k) bs (sso_update e k b v)"

definition is_int_null :: "data_type \<Rightarrow> bool" where
  "is_int_null v = (v = int64_min)"

definition is_float_null :: "data_type \<Rightarrow> bool" where
  "is_float_null v = (v = double_lowest)"

definition is_string_null :: "data_type \<Rightarrow> bool" where
  "is_string_null v = (v = 0)"

text \<open>
  \<open>return std::string_view(&value.s.sso[start], n)\<close> with \<open>n\<close> a \<open>char\<close>, in
  \<open>get_string_ptr(data_type value)\<close>.  \<open>value\<close> is a parameter passed by value, so the
  view points into an object that is gone when the caller holds the view: what the caller
  gets is \<open>Dangling_view\<close>, with the \<open>n\<close> bytes from \<open>sso[start]\<close> on that the
  parameter held.  A length that leaves the eight bytes of the cell is \<open>Cell_overrun\<close>
  (a \<open>char\<close> with the top bit set is either a length of 128 or more or, where
  \<open>char\<close> is signed, a negative one that converts to a huge \<open>size_t\<close>); it is the case
  in which the assertion \<open>(sso[0] & sso_mask) == sso[0]\<close> of the source fails.
\<close>

definition view_in_cell :: "endian \<Rightarrow> data_type \<Rightarrow> nat \<Rightarrow> 8 word \<Rightarrow> error + string_view" where
  "view_in_cell e v start n =
     (if start + unat n \<le> 8 then Inl (Dangling_view (map (sso e v) [start..<start + unat n]))
      else Inl Cell_overrun)"

text \<open>The \<open>memcpy\<close> of a \<open>size_t\<close> (eight bytes, native byte order) from address \<open>a\<close>.\<close>

definition load_size_t :: "endian \<Rightarrow> memory \<Rightarrow> 64 word \<Rightarrow> 64 word" where
  "load_size_t e mem a =
     (let bs = map (\<lambda>i. mem (a + of_nat i)) [0..<8]
      in case e of Little \<Rightarrow> word_rcat (rev bs) | Big \<Rightarrow> word_rcat bs)"

definition get_string_ptr :: "endian \<Rightarrow> memory \<Rightarrow> data_type \<Rightarrow> error + string_view" where
  "get_string_ptr e mem v =
     (if e = Little \<and> sso e v 0 AND sso_mask \<noteq> 0 then view_in_cell e v 1 (sso e v 0)
      else if e = Big \<and> sso e v 7 AND sso_mask \<noteq> 0 then view_in_cell e v 0 (sso e v 7)
      else if v = 0 then Inr []
      else let count = load_size_t e mem (v - 8)
           in Inr (map (\<lambda>i. mem (v + of_nat i)) [0..<unat count]))"

definition to_varient :: "endian \<Rightarrow> memory \<Rightarrow> data_type \<Rightarrow> type \<Rightarrow> error + variant_type" where
  "to_varient e mem v t =
     (case t of
        STRING \<Rightarrow> (if is_string_null v then Inr VNull
                   else (case get_string_ptr e mem v of Inl err \<Rightarrow> Inl err | Inr sv \<Rightarrow> Inr (VString sv)))
      | INT_type \<Rightarrow> Inr (if is_int_null v then VNull else VInt v)
      | FLOAT \<Rightarrow> Inr (if is_float_null v then VNull else VFloat v))"

definition null_value :: data_type where
  "null_value = 0"

definition from_int :: "64 word option \<Rightarrow> data_type" where
  "from_int x = (case x of Some v \<Rightarrow> v | None \<Rightarrow> int64_min)"

definition from_float :: "64 word option \<Rightarrow> data_type" where
  "from_float x = (case x of Some v \<Rightarrow> v | None \<Rightarrow> double_lowest)"

definition try_from_string :: "endian \<Rightarrow> 8 word list \<Rightarrow> data_type" where
  "try_from_string e s =
     (if length s = 0 \<or> length s > 6 then null_value
      else (case e of
              Little \<Rightarrow> copy_to_sso e 1 s (sso_update e 0 (of_nat (length s)) 0)
            | Big \<Rightarrow> copy_to_sso e 0 s (sso_update e 7 (of_nat (length s)) 0)))"

text \<open>
  The source asserts that \<open>value\<close> is aligned to eight bytes, an abort in a build
  without \<open>NDEBUG\<close>.  The function is applied below to aligned pointers only, for which
  both builds store the pointer.
\<close>

definition try_from_char_fn :: "64 word \<Rightarrow> data_type" where
  "try_from_char_fn p = p"

text \<open>The tag bits of a string cell: the low three bits of \<open>sso[0]\<close> or of \<open>sso[7]\<close>.\<close>

definition tag_bits :: "endian \<Rightarrow> data_type \<Rightarrow> 8 word" where
  "tag_bits e v = (case e of Little \<Rightarrow> sso e v 0 | Big \<Rightarrow> sso e v 7) AND sso_mask"

section \<open>The column: \<open>data_column\<close>\<close>

text \<open>
  \<open>m_data\<close> is \<open>None\<close> for the null pointer and else the content of the block it points
  to, one entry for each cell of the block.  \<open>m_res\<close> is the handle of the memory
  resource, \<open>None\<close> for the null pointer.  \<open>size_type\<close> is \<open>uint32_t\<close>.
\<close>

text \<open>
  \<open>assert\<close> aborts the program in a build without \<open>NDEBUG\<close> and is compiled out in a
  build with it.  The members that assert take the build as a parameter.
\<close>

datatype build = Debug | NDEBUG

record data_column =
  m_res :: "nat option"
  m_data :: "data_type list option"
  m_size :: "32 word"
  m_reserved :: "32 word"

text \<open>
  The calls of the members \<open>alloc_\<close> and \<open>dealloc_\<close> (a name cannot end with an
  underscore here: they are \<open>alloc_fn\<close>, \<open>dealloc_fn\<close>, and likewise \<open>reserve_fn\<close>,
  \<open>auto_reserve_fn\<close>, \<open>try_from_char_fn\<close>), in order, with the column's resource and the
  arguments: \<open>Alloc_call r n\<close> is \<open>r->allocate(n * 8, 8)\<close> or, for \<open>r = None\<close>,
  \<open>malloc(n * 8)\<close>; \<open>Dealloc_call r p n\<close> is \<open>r->deallocate(p, n * 8, 8)\<close> or \<open>free(p)\<close>.
\<close>

datatype event =
  Alloc_call "nat option" "32 word"
| Dealloc_call "nat option" "data_type list option" "32 word"

definition data_column_default :: data_column where
  "data_column_default = \<lparr>m_res = None, m_data = None, m_size = 0, m_reserved = 0\<rparr>"

definition data_column_res :: "nat option \<Rightarrow> data_column" where
  "data_column_res res = \<lparr>m_res = res, m_data = None, m_size = 0, m_reserved = 0\<rparr>"

text \<open>\<open>m_data[i]\<close>\<close>

definition index :: "data_type list option \<Rightarrow> nat \<Rightarrow> error + data_type" where
  "index p i =
     (case p of None \<Rightarrow> Inl Null_dereference
      | Some buf \<Rightarrow> if i < length buf then Inr (buf ! i) else Inl Buffer_overrun)"

definition at :: "data_column \<Rightarrow> 32 word \<Rightarrow> error + data_type" where
  "at c pos = (if pos \<ge> m_size c then Inl Out_of_range else index (m_data c) (unat pos))"

text \<open>
  \<open>alloc_\<close>: after \<open>assert(count > 0)\<close>, a fresh block of \<open>count\<close> cells.  Its content
  is not initialised: it is given by \<open>junk\<close>, about which nothing is assumed.  Allocation
  is taken to succeed.
\<close>

definition alloc_fn :: "build \<Rightarrow> (nat \<Rightarrow> data_type) \<Rightarrow> data_column \<Rightarrow> 32 word \<Rightarrow> error + data_type list \<times> event list" where
  "alloc_fn b junk c count =
     (if b = Debug \<and> \<not> count > 0 then Inl Assertion_failed
      else Inr (map junk [0..<unat count], [Alloc_call (m_res c) count]))"

text \<open>
  \<open>dealloc_\<close>: after \<open>assert(count > 0)\<close>, \<open>m_res->deallocate(ptr, count * 8, 8)\<close> if
  there is a memory resource and \<open>free(ptr)\<close> if not.  \<open>deallocate\<close> requires a pointer
  that \<open>allocate\<close> returned for the same number of bytes, so not the null pointer;
  \<open>free\<close> accepts the null pointer.
\<close>

definition dealloc_fn :: "build \<Rightarrow> data_column \<Rightarrow> data_type list option \<Rightarrow> 32 word \<Rightarrow> error + event list" where
  "dealloc_fn b c p count =
     (if b = Debug \<and> \<not> count > 0 then Inl Assertion_failed
      else if m_res c \<noteq> None then
        (case p of
           None \<Rightarrow> Inl Resource_precondition
         | Some buf \<Rightarrow> if length buf = unat count then Inr [Dealloc_call (m_res c) p count]
                       else Inl Resource_precondition)
      else Inr [Dealloc_call (m_res c) p count])"

text \<open>\<open>std::copy_n(src, n, dst)\<close> into a block with content \<open>dst\<close>.\<close>

definition copy_n :: "data_type list option \<Rightarrow> nat \<Rightarrow> data_type list \<Rightarrow> error + data_type list" where
  "copy_n src n dst =
     (if n = 0 then Inr dst
      else case src of None \<Rightarrow> Inl Null_dereference
           | Some buf \<Rightarrow> if n \<le> length buf \<and> n \<le> length dst then Inr (take n buf @ drop n dst)
                        else Inl Buffer_overrun)"

text \<open>\<open>std::fill(p + first, p + stop, value)\<close>\<close>

definition fill :: "data_type list option \<Rightarrow> nat \<Rightarrow> nat \<Rightarrow> data_type \<Rightarrow> error + data_type list option" where
  "fill p first stop v =
     (if stop \<le> first then Inr p
      else case p of None \<Rightarrow> Inl Null_dereference
           | Some buf \<Rightarrow> if stop \<le> length buf
                        then Inr (Some (take first buf @ replicate (stop - first) v @ drop stop buf))
                        else Inl Buffer_overrun)"

definition reserve_fn :: "build \<Rightarrow> (nat \<Rightarrow> data_type) \<Rightarrow> 32 word \<Rightarrow> data_column \<Rightarrow> error + data_column \<times> event list" where
  "reserve_fn b junk count c =
     (if count > m_reserved c then
        let old_data = m_data c
        in case alloc_fn b junk c count of
             Inl err \<Rightarrow> Inl err
           | Inr (new_data, ev1) \<Rightarrow>
               (case copy_n old_data (unat (m_size c)) new_data of
                  Inl err \<Rightarrow> Inl err
                | Inr new_data' \<Rightarrow>
                    (case dealloc_fn b c old_data (m_reserved c) of
                       Inl err \<Rightarrow> Inl err
                     | Inr ev2 \<Rightarrow>
                         Inr (c\<lparr>m_data := Some new_data', m_reserved := count\<rparr>, ev1 @ ev2)))
      else Inr (c, []))"

text \<open>\<open>std::bit_width\<close>: the number of bits needed to write the value, 0 for 0.\<close>

fun bit_width_nat :: "nat \<Rightarrow> nat" where
  "bit_width_nat n = (if n = 0 then 0 else Suc (bit_width_nat (n div 2)))"

declare bit_width_nat.simps [simp del]

definition bit_width :: "32 word \<Rightarrow> int" where
  "bit_width w = int (bit_width_nat (unat w))"

definition auto_reserve_fn :: "build \<Rightarrow> (nat \<Rightarrow> data_type) \<Rightarrow> 32 word \<Rightarrow> data_column \<Rightarrow> error + data_column \<times> event list" where
  "auto_reserve_fn b junk count c =
     (if count > m_reserved c then
        let shift = bit_width count;
            shift = min (shift - 2) 3
        in if shift < 0 then Inl Negative_shift
           else reserve_fn b junk (m_reserved c + push_bit (nat shift) 1) c
      else Inr (c, []))"

definition resize :: "build \<Rightarrow> (nat \<Rightarrow> data_type) \<Rightarrow> 32 word \<Rightarrow> data_type \<Rightarrow> data_column \<Rightarrow> error + data_column \<times> event list" where
  "resize b junk count v c =
     (if count > m_size c then
        case auto_reserve_fn b junk count c of
          Inl err \<Rightarrow> Inl err
        | Inr (c1, ev) \<Rightarrow>
            (case fill (m_data c1) (unat (m_size c1)) (unat count) v of
               Inl err \<Rightarrow> Inl err
             | Inr d \<Rightarrow> Inr (c1\<lparr>m_data := d, m_size := count\<rparr>, ev))
      else Inr (c\<lparr>m_size := count\<rparr>, []))"

definition reserve :: "build \<Rightarrow> (nat \<Rightarrow> data_type) \<Rightarrow> 32 word \<Rightarrow> data_column \<Rightarrow> error + data_column \<times> event list" where
  "reserve b junk count c = reserve_fn b junk count c"

definition resize_null :: "build \<Rightarrow> (nat \<Rightarrow> data_type) \<Rightarrow> 32 word \<Rightarrow> data_column \<Rightarrow> error + data_column \<times> event list" where
  "resize_null b junk count c = resize b junk count null_value c"

text \<open>The destructor \<open>~data_column\<close>.\<close>

definition destroy :: "build \<Rightarrow> data_column \<Rightarrow> error + data_column \<times> event list" where
  "destroy b c =
     (if m_data c \<noteq> None then
        (case dealloc_fn b c (m_data c) (m_reserved c) of
           Inl err \<Rightarrow> Inl err
         | Inr ev \<Rightarrow> Inr (c\<lparr>m_data := None\<rparr>, ev))
      else Inr (c, []))"

text \<open>
  A sequence of calls of the public members \<open>reserve\<close> and \<open>resize\<close>.  The overload
  \<open>resize(count)\<close> is \<open>resize(count, null_value())\<close>.
\<close>

datatype call = Reserve "32 word" | Resize "32 word" data_type

fun step :: "build \<Rightarrow> (nat \<Rightarrow> data_type) \<Rightarrow> call \<Rightarrow> data_column \<Rightarrow> error + data_column \<times> event list" where
  "step b junk (Reserve n) c = reserve b junk n c"
| "step b junk (Resize n v) c = resize b junk n v c"

fun run :: "build \<Rightarrow> (nat \<Rightarrow> data_type) \<Rightarrow> call list \<Rightarrow> data_column \<Rightarrow> error + data_column \<times> event list" where
  "run b junk [] c = Inr (c, [])"
| "run b junk (x # xs) c =
     (case step b junk x c of
        Inl err \<Rightarrow> Inl err
      | Inr (c1, ev1) \<Rightarrow>
          (case run b junk xs c1 of
             Inl err \<Rightarrow> Inl err
           | Inr (c2, ev2) \<Rightarrow> Inr (c2, ev1 @ ev2)))"

text \<open>The cells of the block, none for the null pointer.\<close>

definition cells :: "data_column \<Rightarrow> data_type list" where
  "cells c = (case m_data c of None \<Rightarrow> [] | Some buf \<Rightarrow> buf)"

text \<open>
  The invariant of a column: the block has \<open>m_reserved\<close> cells, \<open>m_size\<close> is at most
  \<open>m_reserved\<close>, and both are 0 while \<open>m_data\<close> is null.
\<close>

definition column_inv :: "data_column \<Rightarrow> bool" where
  "column_inv c =
     (m_size c \<le> m_reserved c \<and>
      (case m_data c of None \<Rightarrow> m_reserved c = 0 | Some buf \<Rightarrow> length buf = unat (m_reserved c)))"

section \<open>Concrete inputs\<close>

text \<open>
  A memory holding, from address \<open>0xFF8\<close> on, the length word 3 (little endian) and
  then the three bytes of \<open>hi!\<close>: the buffer starts at the aligned address \<open>0x1000\<close>.
\<close>

definition hello_memory :: memory where
  "hello_memory a =
     (let bytes = [3, 0, 0, 0, 0, 0, 0, 0, 104, 105, 33]; k = unat (a - 0xFF8)
      in if k < length bytes then bytes ! k else 0)"

text \<open>
  A block whose fresh cells are all zero, a column of three cells in a block of four, and
  the handle of some memory resource.
\<close>

definition some_resource :: nat where
  "some_resource = 1"


definition zero_junk :: "nat \<Rightarrow> data_type" where
  "zero_junk i = 0"

definition example_column :: data_column where
  "example_column = \<lparr>m_res = None, m_data = Some [1, 2, 3, 4], m_size = 3, m_reserved = 4\<rparr>"

section \<open>Bytes of a cell\<close>

lemma byte_same:
  "s + 8 \<le> 64 \<Longrightarrow>
   (ucast (drop_bit s ((v AND NOT (push_bit s (mask 8))) OR push_bit s (ucast b) :: 64 word)) :: 8 word) = (b :: 8 word)"
  by (rule bit_word_eqI) (auto simp add: bit_simps)

lemma byte_other:
  "s + 8 \<le> t \<or> t + 8 \<le> s \<Longrightarrow>
   (ucast (drop_bit t ((v AND NOT (push_bit s (mask 8))) OR push_bit s (ucast (b :: 8 word)) :: 64 word)) :: 8 word)
     = ucast (drop_bit t v)"
  by (rule bit_word_eqI) (auto simp add: bit_simps dest: bit_imp_le_length)

lemma mask_255: "(255 :: 64 word) = mask 8"
  by (simp add: mask_eq_exp_minus_1)

lemma sso_update_same: "k < 8 \<Longrightarrow> sso e (sso_update e k b v) k = b"
  unfolding sso_def sso_update_def mask_255
  by (rule byte_same) (simp add: sso_shift_def split: endian.split)

lemma sso_update_other: "k < 8 \<Longrightarrow> j < 8 \<Longrightarrow> j \<noteq> k \<Longrightarrow> sso e (sso_update e k b v) j = sso e v j"
  unfolding sso_def sso_update_def mask_255
  by (rule byte_other) (auto simp add: sso_shift_def split: endian.split)

lemma sso_zero: "sso e 0 k = 0"
  by (simp add: sso_def)

lemma sso_copy_to_sso:
  "k + length bs \<le> 8 \<Longrightarrow> j < 8 \<Longrightarrow>
   sso e (copy_to_sso e k bs v) j = (if k \<le> j \<and> j < k + length bs then bs ! (j - k) else sso e v j)"
proof (induction bs arbitrary: k v)
  case Nil
  then show ?case by auto
next
  case (Cons b bs)
  have k8: "k < 8" using Cons.prems by simp
  have step: "sso e (copy_to_sso e (Suc k) bs (sso_update e k b v)) j =
      (if Suc k \<le> j \<and> j < Suc k + length bs then bs ! (j - Suc k) else sso e (sso_update e k b v) j)"
    using Cons.prems by (intro Cons.IH) simp_all
  show ?case
  proof (cases "j = k")
    case True
    then show ?thesis using step k8 by (simp add: sso_update_same)
  next
    case False
    then show ?thesis using step k8 Cons.prems(2)
      by (auto simp add: sso_update_other nth_Cons')
  qed
qed

lemma small_tag: "1 \<le> n \<Longrightarrow> n \<le> 6 \<Longrightarrow>
   (of_nat n :: 8 word) AND sso_mask = of_nat n \<and> (of_nat n :: 8 word) \<noteq> 0 \<and> unat (of_nat n :: 8 word) = n"
proof -
  assume "1 \<le> n" "n \<le> 6"
  then have "n = 1 \<or> n = 2 \<or> n = 3 \<or> n = 4 \<or> n = 5 \<or> n = 6" by arith
  then show ?thesis by (auto simp add: sso_mask_def)
qed

lemma try_from_string_null: "length s = 0 \<or> 6 < length s \<Longrightarrow> try_from_string e s = null_value"
  by (auto simp add: try_from_string_def)

lemma sso_try_from_string_Little:
  assumes "1 \<le> length s" "length s \<le> 6" "j < 8"
  shows "sso Little (try_from_string Little s) j =
     (if j = 0 then of_nat (length s) else if j \<le> length s then s ! (j - 1) else 0)"
proof -
  have "try_from_string Little s = copy_to_sso Little 1 s (sso_update Little 0 (of_nat (length s)) 0)"
    using assms by (auto simp add: try_from_string_def)
  moreover have "sso Little (copy_to_sso Little 1 s (sso_update Little 0 (of_nat (length s)) 0)) j =
     (if 1 \<le> j \<and> j < 1 + length s then s ! (j - 1)
      else sso Little (sso_update Little 0 (of_nat (length s)) 0) j)"
    using assms by (intro sso_copy_to_sso) simp_all
  ultimately show ?thesis
    using assms by (cases "j = 0") (auto simp add: sso_update_same sso_update_other sso_zero)
qed

lemma sso_try_from_string_Big:
  assumes "1 \<le> length s" "length s \<le> 6" "j < 8"
  shows "sso Big (try_from_string Big s) j =
     (if j = 7 then of_nat (length s) else if j < length s then s ! j else 0)"
proof -
  have "try_from_string Big s = copy_to_sso Big 0 s (sso_update Big 7 (of_nat (length s)) 0)"
    using assms by (auto simp add: try_from_string_def)
  moreover have "sso Big (copy_to_sso Big 0 s (sso_update Big 7 (of_nat (length s)) 0)) j =
     (if 0 \<le> j \<and> j < 0 + length s then s ! (j - 0)
      else sso Big (sso_update Big 7 (of_nat (length s)) 0) j)"
    using assms by (intro sso_copy_to_sso) simp_all
  ultimately show ?thesis
    using assms by (cases "j = 7") (auto simp add: sso_update_same sso_update_other sso_zero)
qed

lemma get_string_ptr_try_from_string:
  assumes "1 \<le> length s" "length s \<le> 6"
  shows "get_string_ptr e mem (try_from_string e s) = Inl (Dangling_view s)"
proof (cases e)
  case Little
  have tag: "sso Little (try_from_string Little s) 0 = of_nat (length s)"
    using assms by (simp add: sso_try_from_string_Little)
  have "map (sso Little (try_from_string Little s)) [1..<1 + length s] = s"
    using assms by (intro nth_equalityI) (simp_all add: sso_try_from_string_Little del: upt_Suc)
  then show ?thesis
    using Little tag small_tag [OF assms] assms
    by (simp add: get_string_ptr_def view_in_cell_def del: upt_Suc)
next
  case Big
  have tag: "sso Big (try_from_string Big s) 7 = of_nat (length s)"
    using assms by (simp add: sso_try_from_string_Big)
  have "map (sso Big (try_from_string Big s)) [0..<0 + length s] = s"
    using assms by (intro nth_equalityI) (simp_all add: sso_try_from_string_Big del: upt_Suc)
  then show ?thesis
    using Big tag small_tag [OF assms] assms
    by (simp add: get_string_ptr_def view_in_cell_def del: upt_Suc)
qed

lemma try_from_string_not_null:
  assumes "1 \<le> length s" "length s \<le> 6"
  shows "try_from_string e s \<noteq> 0"
proof (cases e)
  case Little
  have "sso Little (try_from_string Little s) 0 \<noteq> 0"
    using assms small_tag [OF assms] by (simp add: sso_try_from_string_Little)
  then show ?thesis using Little by (auto simp add: sso_zero)
next
  case Big
  have "sso Big (try_from_string Big s) 7 \<noteq> 0"
    using assms small_tag [OF assms] by (simp add: sso_try_from_string_Big)
  then show ?thesis using Big by (auto simp add: sso_zero)
qed

lemma sso_unused_bytes_zero:
  assumes "1 \<le> length s" "length s \<le> 6" "j < 8"
    and "case e of Little \<Rightarrow> length s < j | Big \<Rightarrow> length s \<le> j \<and> j \<noteq> 7"
  shows "sso e (try_from_string e s) j = 0"
  using assms by (cases e) (simp_all add: sso_try_from_string_Little sso_try_from_string_Big)

lemma to_varient_try_from_string_inline:
  assumes "1 \<le> length s" "length s \<le> 6"
  shows "to_varient e mem (try_from_string e s) STRING = Inl (Dangling_view s)"
  using try_from_string_not_null [OF assms, of e] get_string_ptr_try_from_string [OF assms, of e mem]
  by (simp add: to_varient_def is_string_null_def)

lemma to_varient_try_from_string_null:
  assumes "length s = 0 \<or> 6 < length s"
  shows "try_from_string e s = null_value \<and> to_varient e mem (try_from_string e s) STRING = Inr VNull"
  using try_from_string_null [OF assms, of e]
  by (simp add: to_varient_def is_string_null_def null_value_def)

text \<open>
  Claim C4.  The code at the input where it leaves the claim: for the two bytes of
  \<open>hi\<close> the cell made by \<open>try_from_string\<close> holds the length and the bytes, and
  \<open>to_varient\<close> returns a view of those two bytes inside the by-value parameter of
  \<open>get_string_ptr\<close>, an object that is gone when \<open>to_varient\<close> returns, where the claim
  has the string view of \<open>hi\<close>.  The lemmas above give the same for every string of one
  to six bytes and both byte orders, the zero bytes of the cell, and the null variant for
  the empty string and for more than six bytes.
\<close>

theorem sso_view_dangles:
  "to_varient Little zero_memory (try_from_string Little [104, 105]) STRING
     = Inl (Dangling_view [104, 105])"
  by (rule to_varient_try_from_string_inline) simp_all

section \<open>Projection of cells\<close>

text \<open>
  Claim C1, as amended.  The null cell projects to the null variant for the kind
  \<open>STRING\<close> only.  For \<open>INT\<close> it is the integer 0 and for \<open>FLOAT\<close> the double with
  all bits zero: their null tests compare with \<open>int64_min\<close> and with \<open>lowest()\<close>.
  The claim as stated fails for the kind \<open>INT\<close>.
\<close>

theorem null_cell_projection:
  "to_varient e mem null_value STRING = Inr VNull \<and>
   to_varient e mem null_value INT_type = Inr (VInt 0) \<and>
   to_varient e mem null_value FLOAT = Inr (VFloat 0)"
  by (simp add: to_varient_def null_value_def is_string_null_def is_int_null_def
      is_float_null_def int64_min_def double_lowest_def)

theorem null_cell_int_counterexample:
  "to_varient Little zero_memory null_value INT_type \<noteq> Inr VNull"
  by (simp add: to_varient_def null_value_def is_int_null_def int64_min_def)

text \<open>
  Claim C5.  Every integer other than \<open>int64_min\<close> survives \<open>from_int\<close> followed by
  the \<open>INT\<close> projection; no value and \<open>int64_min\<close> both project to the null variant;
  \<open>is_int_null (from_int x)\<close> holds exactly when \<open>x\<close> is absent or is \<open>int64_min\<close>.
\<close>

theorem int_round_trip:
  "(v \<noteq> int64_min \<longrightarrow> to_varient e mem (from_int (Some v)) INT_type = Inr (VInt v)) \<and>
   to_varient e mem (from_int None) INT_type = Inr VNull \<and>
   to_varient e mem (from_int (Some int64_min)) INT_type = Inr VNull \<and>
   (is_int_null (from_int x) \<longleftrightarrow> x = None \<or> x = Some int64_min)"
  by (cases x) (simp_all add: to_varient_def from_int_def is_int_null_def)

theorem int_round_trip_witness:
  "(42 :: 64 word) \<noteq> int64_min \<and>
   to_varient Little zero_memory (from_int (Some 42)) INT_type = Inr (VInt 42) \<and>
   is_int_null (from_int (Some int64_min)) \<and> \<not> is_int_null (from_int (Some 42))"
  using int_round_trip [of 42 Little zero_memory "Some int64_min"]
    int_round_trip [of 42 Little zero_memory "Some 42"]
  by (simp add: int64_min_def)

lemma tag_bits_zero: "tag_bits e 0 = 0"
  by (cases e) (simp_all add: tag_bits_def sso_zero)

text \<open>
  Claim C9.  \<open>is_string_null\<close> holds exactly when the pointer is null and the tag bits
  are zero (the pointer overlays the tag byte, so a null pointer has zero tag bits), and
  it does not hold for the cell that \<open>try_from_string\<close> makes from one to six bytes.
\<close>

theorem is_string_null_iff:
  "(is_string_null c \<longleftrightarrow> c = 0 \<and> tag_bits e c = 0) \<and>
   (1 \<le> length s \<and> length s \<le> 6 \<longrightarrow> \<not> is_string_null (try_from_string e s))"
  using try_from_string_not_null [of s e]
  by (auto simp add: is_string_null_def tag_bits_zero)

theorem is_string_null_iff_witness:
  "is_string_null 0 \<and> tag_bits Big 0 = 0 \<and> \<not> is_string_null (try_from_string Big [104, 105])"
  using is_string_null_iff [of 0 Big "[104, 105]"]
  by (simp add: is_string_null_def)

lemma aligned_tag:
  assumes "p AND 7 = (0 :: 64 word)"
  shows "(ucast p :: 8 word) AND sso_mask = 0"
proof -
  have "(ucast (p AND 7) :: 8 word) = ucast p AND ucast (7 :: 64 word)"
    by (rule unsigned_and_eq)
  then show ?thesis using assms by (simp add: sso_mask_def)
qed

lemma sso_low_byte: "sso Little p 0 = ucast p" "sso Big p 7 = ucast p"
  by (simp_all add: sso_def sso_shift_def)

text \<open>
  Claim C6.  For a pointer that is not null, is aligned to eight bytes and is preceded by
  a length word equal to the number of stored bytes, \<open>get_string_ptr\<close> of the cell made
  by \<open>try_from_char_\<close> is exactly the stored bytes.  For the cell with zero tag bits and a
  null pointer it is the empty view.
\<close>

theorem long_string_round_trip:
  "(p AND 7 = 0 \<and> p \<noteq> 0 \<and> unat (load_size_t e mem (p - 8)) = length bs \<and>
    (\<forall>i<length bs. mem (p + of_nat i) = bs ! i) \<longrightarrow>
      get_string_ptr e mem (try_from_char_fn p) = Inr bs) \<and>
   (tag_bits e v = 0 \<and> v = 0 \<longrightarrow> get_string_ptr e mem v = Inr [])"
proof (intro conjI impI)
  assume a: "p AND 7 = 0 \<and> p \<noteq> 0 \<and> unat (load_size_t e mem (p - 8)) = length bs \<and>
    (\<forall>i<length bs. mem (p + of_nat i) = bs ! i)"
  then have tag: "(ucast p :: 8 word) AND sso_mask = 0" by (simp add: aligned_tag)
  have "map (\<lambda>i. mem (p + of_nat i)) [0..<length bs] = bs"
    using a by (intro nth_equalityI) (simp_all del: upt_Suc)
  then show "get_string_ptr e mem (try_from_char_fn p) = Inr bs"
    using a tag by (cases e) (simp_all add: get_string_ptr_def try_from_char_fn_def sso_low_byte)
next
  assume "tag_bits e v = 0 \<and> v = 0"
  then show "get_string_ptr e mem v = Inr []"
    by (simp add: get_string_ptr_def sso_zero)
qed

theorem long_string_round_trip_witness:
  "(0x1000 :: 64 word) AND 7 = 0 \<and> (0x1000 :: 64 word) \<noteq> 0 \<and>
   unat (load_size_t Little hello_memory (0x1000 - 8)) = length [104, 105, 33 :: 8 word] \<and>
   get_string_ptr Little hello_memory (try_from_char_fn 0x1000) = Inr [104, 105, 33] \<and>
   get_string_ptr Little hello_memory 0 = Inr []"
proof -
  have 1: "(0x1000 :: 64 word) AND 7 = 0" by simp
  have 2: "(0x1000 :: 64 word) \<noteq> 0" by simp
  have 3: "unat (load_size_t Little hello_memory (0x1000 - 8)) = length [104, 105, 33 :: 8 word]"
    by code_simp
  have 4: "\<forall>i<length [104, 105, 33 :: 8 word]. hello_memory (0x1000 + of_nat i) = [104, 105, 33] ! i"
    by (simp add: hello_memory_def All_less_Suc numeral_3_eq_3)
  have 5: "tag_bits Little 0 = 0 \<and> (0 :: 64 word) = 0" by (simp add: tag_bits_zero)
  show ?thesis
    using long_string_round_trip [of "0x1000" Little hello_memory "[104, 105, 33]" 0] 1 2 3 4 5
    by blast
qed

section \<open>Access and capacity\<close>

lemma bit_width_9: "bit_width 9 = 4"
  by (simp add: bit_width_def bit_width_nat.simps)

lemma bit_width_1: "bit_width 1 = 1"
  by (simp add: bit_width_def bit_width_nat.simps)

text \<open>
  Claim C8.  \<open>at(pos)\<close> throws \<open>std::out_of_range\<close> exactly when
  \<open>pos \<ge> m_size\<close>; on a column that satisfies the invariant it returns the cell at
  \<open>pos\<close> otherwise.  \<open>at\<close> is a function of the column: it leaves it as it is.
\<close>

theorem at_bounds_checked:
  "(at c pos = Inl Out_of_range \<longleftrightarrow> m_size c \<le> pos) \<and>
   (column_inv c \<and> pos < m_size c \<longrightarrow> at c pos = Inr (cells c ! unat pos))"
proof (intro conjI impI)
  show "at c pos = Inl Out_of_range \<longleftrightarrow> m_size c \<le> pos"
    by (auto simp add: at_def index_def split: option.splits)
next
  assume a: "column_inv c \<and> pos < m_size c"
  then have lt: "unat pos < unat (m_reserved c)"
    by (auto simp add: column_inv_def word_less_nat_alt word_le_nat_alt)
  show "at c pos = Inr (cells c ! unat pos)"
  proof (cases "m_data c")
    case None
    then show ?thesis using a lt by (simp add: column_inv_def)
  next
    case (Some buf)
    then show ?thesis using a lt by (auto simp add: column_inv_def at_def index_def cells_def)
  qed
qed

theorem at_bounds_checked_witness:
  "column_inv example_column \<and> (1 :: 32 word) < m_size example_column \<and>
   at example_column 1 = Inr 2 \<and> at example_column 3 = Inl Out_of_range"
  using at_bounds_checked [of example_column 1] at_bounds_checked [of example_column 3]
  by (simp add: example_column_def column_inv_def cells_def)

lemma reserve_fn_keep: "\<not> m_reserved c < n \<Longrightarrow> reserve_fn b junk n c = Inr (c, [])"
  by (simp add: reserve_fn_def)

lemma reserve_fn_result:
  assumes "column_inv c" "m_reserved c < n" "reserve_fn b junk n c = Inr (c', ev)"
  shows "c' = c\<lparr>m_data := Some (take (unat (m_size c)) (cells c) @ drop (unat (m_size c)) (map junk [0..<unat n])),
                m_reserved := n\<rparr> \<and>
         ev = [Alloc_call (m_res c) n, Dealloc_call (m_res c) (m_data c) (m_reserved c)]"
proof (cases "m_data c")
  case None
  then have "m_size c = 0" using assms(1) by (auto simp add: column_inv_def)
  then show ?thesis using None assms(2,3)
    by (auto simp add: reserve_fn_def alloc_fn_def dealloc_fn_def copy_n_def cells_def Let_def
        split: if_splits)
next
  case (Some buf)
  then show ?thesis using assms(2,3)
    by (auto simp add: reserve_fn_def alloc_fn_def dealloc_fn_def copy_n_def cells_def Let_def
        split: if_splits)
qed

lemma reserve_fn_defined:
  assumes "column_inv c" "m_reserved c < n" "0 < m_reserved c \<or> b = NDEBUG \<and> m_res c = None"
  shows "reserve_fn b junk n c =
     Inr (c\<lparr>m_data := Some (take (unat (m_size c)) (cells c) @ drop (unat (m_size c)) (map junk [0..<unat n])),
            m_reserved := n\<rparr>,
          [Alloc_call (m_res c) n, Dealloc_call (m_res c) (m_data c) (m_reserved c)])"
proof -
  have le: "unat (m_size c) \<le> unat (m_reserved c)" "unat (m_reserved c) < unat n"
    using assms by (simp_all add: column_inv_def word_less_nat_alt word_le_nat_alt)
  have n: "0 < n" using assms(2) by (simp add: word_greater_zero_iff) auto
  show ?thesis
  proof (cases "m_data c")
    case None
    then have z: "m_size c = 0" "m_reserved c = 0" using assms(1) by (auto simp add: column_inv_def)
    then show ?thesis using None assms(2,3) n
      by (auto simp add: reserve_fn_def alloc_fn_def dealloc_fn_def copy_n_def cells_def Let_def)
  next
    case (Some buf)
    then have "length buf = unat (m_reserved c)" using assms(1) by (simp add: column_inv_def)
    then show ?thesis using Some assms(2,3) le n
      by (auto simp add: reserve_fn_def alloc_fn_def dealloc_fn_def copy_n_def cells_def Let_def)
  qed
qed

lemma reserve_fn_mono:
  "reserve_fn b junk n c = Inr (c', ev) \<Longrightarrow> m_reserved c \<le> m_reserved c'"
  by (auto simp add: reserve_fn_def Let_def split: if_splits sum.splits)

lemma auto_reserve_fn_mono:
  "auto_reserve_fn b junk n c = Inr (c', ev) \<Longrightarrow> m_reserved c \<le> m_reserved c'"
  by (auto simp add: auto_reserve_fn_def Let_def split: if_splits dest: reserve_fn_mono)

lemma resize_mono:
  assumes "resize b junk n v c = Inr (c', ev)"
  shows "m_reserved c \<le> m_reserved c'"
proof (cases "m_size c < n")
  case True
  with assms obtain c1 d where
    a: "auto_reserve_fn b junk n c = Inr (c1, ev)" and c': "c' = c1\<lparr>m_data := d, m_size := n\<rparr>"
    by (auto simp add: resize_def split: sum.splits)
  from a have "m_reserved c \<le> m_reserved c1" by (rule auto_reserve_fn_mono)
  then show ?thesis using c' by simp
next
  case False
  with assms show ?thesis by (auto simp add: resize_def)
qed

lemma step_mono:
  "step b junk x c = Inr (c', ev) \<Longrightarrow> m_reserved c \<le> m_reserved c'"
  by (cases x) (auto simp add: reserve_def dest: reserve_fn_mono resize_mono)

lemma run_mono:
  "run b junk xs c = Inr (c', ev) \<Longrightarrow> m_reserved c \<le> m_reserved c'"
proof (induction xs arbitrary: c c' ev)
  case Nil
  then show ?case by simp
next
  case (Cons x xs)
  from Cons.prems obtain c1 ev1 ev2 where
    s: "step b junk x c = Inr (c1, ev1)" and r: "run b junk xs c1 = Inr (c', ev2)"
    by (auto split: sum.splits)
  have "m_reserved c \<le> m_reserved c1" using s by (rule step_mono)
  moreover have "m_reserved c1 \<le> m_reserved c'" using r by (rule Cons.IH)
  ultimately show ?case by simp
qed

lemma column_inv_default: "column_inv data_column_default"
  by (simp add: column_inv_def data_column_default_def)

lemma column_inv_res: "column_inv (data_column_res r)"
  by (simp add: column_inv_def data_column_res_def)

lemma reserve_fn_props:
  assumes "column_inv c" "reserve_fn b junk n c = Inr (c', ev)"
  shows "column_inv c' \<and> m_size c' = m_size c \<and>
         take (unat (m_size c)) (cells c') = take (unat (m_size c)) (cells c)"
proof (cases "m_reserved c < n")
  case True
  have le: "unat (m_size c) \<le> unat (m_reserved c)" "unat (m_reserved c) < unat n" "m_size c \<le> n"
    using assms(1) True by (simp_all add: column_inv_def word_less_nat_alt word_le_nat_alt)
  have len: "unat (m_size c) \<le> length (cells c)"
    using assms(1) le by (auto simp add: column_inv_def cells_def split: option.splits)
  have "c' = c\<lparr>m_data := Some (take (unat (m_size c)) (cells c) @ drop (unat (m_size c)) (map junk [0..<unat n])),
            m_reserved := n\<rparr>"
    using reserve_fn_result [OF assms(1) True assms(2)] by simp
  then show ?thesis using le len by (simp add: column_inv_def cells_def)
next
  case False
  then show ?thesis using assms reserve_fn_keep [OF False, of b junk] by simp
qed

lemma auto_reserve_fn_props:
  assumes "column_inv c" "auto_reserve_fn b junk n c = Inr (c', ev)"
  shows "column_inv c' \<and> m_size c' = m_size c \<and>
         take (unat (m_size c)) (cells c') = take (unat (m_size c)) (cells c)"
proof (cases "m_reserved c < n")
  case True
  then obtain m where "reserve_fn b junk m c = Inr (c', ev)"
    using assms(2) by (auto simp add: auto_reserve_fn_def Let_def split: if_splits)
  then show ?thesis using assms(1) by (rule reserve_fn_props [rotated])
next
  case False
  then show ?thesis using assms by (simp add: auto_reserve_fn_def)
qed

lemma fill_Some:
  assumes "fill (Some buf) first stop v = Inr d" "first < stop"
  shows "stop \<le> length buf \<and> d = Some (take first buf @ replicate (stop - first) v @ drop stop buf)"
  using assms by (auto simp add: fill_def split: if_splits)

lemma resize_grow_props:
  assumes inv: "column_inv c" and r: "resize b junk n v c = Inr (c', ev)" and lt: "m_size c < n"
  shows "column_inv c' \<and> m_size c' = n \<and>
         take (unat (m_size c)) (cells c') = take (unat (m_size c)) (cells c) \<and>
         (\<forall>i. unat (m_size c) \<le> i \<and> i < unat n \<longrightarrow> cells c' ! i = v)"
proof -
  from r lt obtain c1 d where
    a: "auto_reserve_fn b junk n c = Inr (c1, ev)" and
    f: "fill (m_data c1) (unat (m_size c1)) (unat n) v = Inr d" and
    c': "c' = c1\<lparr>m_data := d, m_size := n\<rparr>"
    by (auto simp add: resize_def split: sum.splits)
  from auto_reserve_fn_props [OF inv a] have inv1: "column_inv c1" and s1: "m_size c1 = m_size c"
    and t1: "take (unat (m_size c)) (cells c1) = take (unat (m_size c)) (cells c)" by simp_all
  have lt': "unat (m_size c) < unat n" using lt by (simp add: word_less_nat_alt)
  show ?thesis
  proof (cases "m_data c1")
    case None
    then show ?thesis using f lt' s1 by (simp add: fill_def)
  next
    case (Some buf)
    from fill_Some [of buf "unat (m_size c)" "unat n" v d] f Some s1 lt'
    have n: "unat n \<le> length buf"
      and d: "d = Some (take (unat (m_size c)) buf @ replicate (unat n - unat (m_size c)) v @ drop (unat n) buf)"
      by simp_all
    have lb: "length buf = unat (m_reserved c1)" using inv1 Some by (simp add: column_inv_def)
    have cb: "cells c1 = buf" using Some by (simp add: cells_def)
    have "column_inv c'"
      using c' d n lb lt' by (simp add: column_inv_def word_le_nat_alt)
    moreover have "m_size c' = n" using c' by simp
    moreover have "take (unat (m_size c)) (cells c') = take (unat (m_size c)) (cells c)"
    proof -
      have "cells c' = take (unat (m_size c)) buf @ replicate (unat n - unat (m_size c)) v @ drop (unat n) buf"
        using c' d by (simp add: cells_def)
      then have "take (unat (m_size c)) (cells c') = take (unat (m_size c)) buf"
        using n lt' by simp
      then show ?thesis using t1 cb by simp
    qed
    moreover have "\<forall>i. unat (m_size c) \<le> i \<and> i < unat n \<longrightarrow> cells c' ! i = v"
      using c' d n lt' by (auto simp add: cells_def nth_append)
    ultimately show ?thesis by simp
  qed
qed

lemma resize_shrink: "\<not> m_size c < n \<Longrightarrow> resize b junk n v c = Inr (c\<lparr>m_size := n\<rparr>, [])"
  by (simp add: resize_def)

lemma resize_within_capacity:
  assumes inv: "column_inv c" and lt: "m_size c < n" and cap: "n \<le> m_reserved c"
  shows "resize b junk n v c =
     Inr (c\<lparr>m_data := Some (take (unat (m_size c)) (cells c) @ replicate (unat n - unat (m_size c)) v @
                             drop (unat n) (cells c)),
            m_size := n\<rparr>, [])"
proof -
  have a: "auto_reserve_fn b junk n c = Inr (c, [])"
    using cap by (simp add: auto_reserve_fn_def not_less [symmetric])
  have n: "unat (m_size c) < unat n" "unat n \<le> unat (m_reserved c)"
    using lt cap by (simp_all add: word_less_nat_alt word_le_nat_alt)
  show ?thesis
  proof (cases "m_data c")
    case None
    then show ?thesis using inv n by (simp add: column_inv_def)
  next
    case (Some buf)
    then have "length buf = unat (m_reserved c)" using inv by (simp add: column_inv_def)
    then show ?thesis using Some a n lt by (simp add: resize_def fill_def cells_def)
  qed
qed

text \<open>
  What \<open>reserve\<close> does wherever it returns: on a column that satisfies the invariant and
  has a block, in both builds, and on a column without a block in the build with
  \<open>NDEBUG\<close> and without a memory resource.
\<close>

lemma reserve_where_defined:
  assumes "column_inv c" "0 < m_reserved c \<or> b = NDEBUG \<and> m_res c = None"
  shows "case reserve b junk n c of
            Inl err \<Rightarrow> False
          | Inr (c', ev) \<Rightarrow>
              n \<le> m_reserved c' \<and> m_size c' = m_size c \<and> column_inv c' \<and>
              take (unat (m_size c)) (cells c') = take (unat (m_size c)) (cells c) \<and>
              (if m_reserved c < n
               then m_reserved c' = n \<and> m_data c' \<noteq> None \<and> length (cells c') = unat n \<and>
                    ev = [Alloc_call (m_res c) n, Dealloc_call (m_res c) (m_data c) (m_reserved c)]
               else c' = c \<and> ev = [])"
proof (cases "m_reserved c < n")
  case True
  note g = reserve_fn_defined [OF assms(1) True assms(2), of junk]
  have le: "unat (m_size c) \<le> unat (m_reserved c)" "unat (m_reserved c) < unat n"
    using assms True by (simp_all add: column_inv_def word_less_nat_alt word_le_nat_alt)
  have p: "column_inv (c\<lparr>m_data := Some (take (unat (m_size c)) (cells c) @ drop (unat (m_size c)) (map junk [0..<unat n])),
          m_reserved := n\<rparr>) \<and>
      take (unat (m_size c)) (cells (c\<lparr>m_data := Some (take (unat (m_size c)) (cells c) @ drop (unat (m_size c)) (map junk [0..<unat n])),
          m_reserved := n\<rparr>)) = take (unat (m_size c)) (cells c)"
    using reserve_fn_props [OF assms(1) g] by simp
  have len: "unat (m_size c) \<le> length (cells c)"
    using assms le by (auto simp add: column_inv_def cells_def split: option.splits)
  show ?thesis
    unfolding reserve_def g using True p le len by (simp add: cells_def)
next
  case False
  then show ?thesis
    using assms by (simp add: reserve_def reserve_fn_keep not_less)
qed

text \<open>
  Claim C7.  The code at an input where it leaves the claim: on a column built with a
  memory resource and never grown, \<open>reserve(1)\<close> reaches \<open>dealloc_(nullptr, 0)\<close>.  A
  build without \<open>NDEBUG\<close> aborts at \<open>assert(count > 0)\<close>; a build with it calls
  \<open>deallocate(nullptr, 0, 8)\<close> on the resource, which never allocated that.  The claim
  has \<open>reserve(1)\<close> return on every column, with a block of one cell.
\<close>

theorem reserve_fresh_resource_fails:
  "reserve Debug junk 1 (data_column_res (Some some_resource)) = Inl Assertion_failed \<and>
   reserve NDEBUG junk 1 (data_column_res (Some some_resource)) = Inl Resource_precondition"
  by (simp add: reserve_def reserve_fn_def alloc_fn_def dealloc_fn_def copy_n_def
      data_column_res_def)

text \<open>
  Claim C2.  The code at the input where it leaves the claim: on the default-constructed
  column \<open>auto_reserve_(9)\<close> takes \<open>shift = min(bit_width(9) - 2, 3) = 2\<close> and
  reserves \<open>0 + 4\<close> cells, where the claim has the step \<open>2 ^ max(3, 2) = 8\<close>.  That is
  the build with \<open>NDEBUG\<close>; the other one aborts in \<open>dealloc_\<close>.
\<close>

theorem auto_reserve_step_at_most_8:
  "auto_reserve_fn NDEBUG junk 9 data_column_default =
     Inr (\<lparr>m_res = None, m_data = Some (map junk [0..<4]), m_size = 0, m_reserved = 4\<rparr>,
          [Alloc_call None 4, Dealloc_call None None 0]) \<and>
   auto_reserve_fn Debug junk 9 data_column_default = Inl Assertion_failed"
  by (simp add: auto_reserve_fn_def bit_width_9 reserve_fn_def alloc_fn_def dealloc_fn_def
      copy_n_def data_column_default_def)

text \<open>
  Claim C3.  The code at the input where it leaves the claim: on the default-constructed
  column \<open>resize(9, v)\<close> reserves four cells and \<open>std::fill\<close> then writes the cells
  \<open>[0, 9)\<close>, past the end of the block.  That is the build with \<open>NDEBUG\<close>; the other
  one aborts in \<open>dealloc_\<close>.
\<close>

theorem resize_overruns_block:
  "resize NDEBUG junk 9 v data_column_default = Inl Buffer_overrun \<and>
   resize Debug junk 9 v data_column_default = Inl Assertion_failed"
  by (simp add: resize_def auto_reserve_fn_def bit_width_9 reserve_fn_def alloc_fn_def dealloc_fn_def
      copy_n_def fill_def data_column_default_def)

text \<open>
  Claim C10.  The code at the input where it leaves the claim: on the default-constructed
  column \<open>reserve(1)\<close> calls \<open>dealloc_\<close> with the null pointer and the count 0.  A
  build without \<open>NDEBUG\<close> aborts at the assertion \<open>count > 0\<close> of \<open>dealloc_\<close>.
\<close>

theorem reserve_fresh_dealloc_zero:
  "reserve NDEBUG junk 1 data_column_default =
     Inr (\<lparr>m_res = None, m_data = Some (map junk [0..<1]), m_size = 0, m_reserved = 1\<rparr>,
          [Alloc_call None 1, Dealloc_call None None 0]) \<and>
   reserve Debug junk 1 data_column_default = Inl Assertion_failed"
  by (simp add: reserve_def reserve_fn_def alloc_fn_def dealloc_fn_def
      copy_n_def data_column_default_def)

lemma destroy_guarded:
  "destroy b c = Inr (c', ev) \<Longrightarrow> Dealloc_call r p n \<in> set ev \<Longrightarrow> p \<noteq> None"
  by (auto simp add: destroy_def dealloc_fn_def split: if_splits sum.splits option.splits)

lemma push_bit_step_le_8: "k \<le> 3 \<Longrightarrow> unat (push_bit k 1 :: 32 word) \<le> 8"
proof -
  assume "k \<le> 3"
  then have "k = 0 \<or> k = 1 \<or> k = 2 \<or> k = 3" by arith
  then show ?thesis by auto
qed

lemma auto_reserve_fn_step_le_8:
  assumes "auto_reserve_fn b junk n c = Inr (c', ev)"
  shows "unat (m_reserved c') \<le> unat (m_reserved c) + 8"
proof (cases "m_reserved c < n")
  case True
  define k where "k = nat (min (bit_width n - 2) 3)"
  have k: "k \<le> 3" by (simp add: k_def)
  have r: "reserve_fn b junk (m_reserved c + push_bit k 1) c = Inr (c', ev)"
    using assms True by (auto simp add: auto_reserve_fn_def Let_def k_def split: if_splits)
  have "m_reserved c' = m_reserved c + push_bit k 1 \<or> m_reserved c' = m_reserved c"
    using r by (auto simp add: reserve_fn_def Let_def split: if_splits sum.splits)
  moreover have "unat (m_reserved c + push_bit k 1) \<le> unat (m_reserved c) + unat (push_bit k 1 :: 32 word)"
    by (simp add: unat_word_ariths)
  ultimately show ?thesis using push_bit_step_le_8 [OF k] by auto
next
  case False
  then show ?thesis using assms by (simp add: auto_reserve_fn_def)
qed

lemma resize_negative_shift:
  "resize b junk 1 v data_column_default = Inl Negative_shift"
  by (simp add: resize_def auto_reserve_fn_def bit_width_1 data_column_default_def)

end
